theory Spec2Isabelle
  imports Main "HOL-Library.FSet"
begin

section \<open>Data model of the crawler (crawler.js, class WebCrawler)\<close>

text \<open>
  JavaScript values that the crawler handles are modelled as follows. A string is a
  \<open>string\<close>; \<open>undefined\<close> is \<open>None\<close>. An object literal is a record. The first
  argument of \<open>crawlWithAxios\<close> is either a URL string (what the callers in index.js,
  scheduler.js and test-crawler.js pass) or one of the link objects produced by
  \<open>extractLinks\<close> (what the loop over \<open>links.slice(0, concurrent)\<close> passes); a link
  object carries the address it was allocated at, because a JavaScript \<open>Set\<close> compares
  objects by reference.
\<close>

type_synonym headers = "(string \<times> string) list"

record link =
  link_text :: string
  link_url :: string
  link_title :: string
  link_target :: "string option"

datatype target = Url string | LinkObject nat link

record img =
  img_src :: string
  img_alt :: string
  img_title :: string
  img_width :: "string option"
  img_height :: "string option"

record page =
  page_title :: string
  page_url :: target
  page_timestamp :: string
  page_text :: string
  page_html :: string
  page_links :: "link list"
  page_images :: "img list"
  page_meta :: "(string \<times> string) list"
  page_statusCode :: "int option"
  page_contentType :: "string option"

text \<open>A parsed document: its elements in document order, each with tag name,
  attributes and text content (what cheerio's selectors and \<open>.attr\<close>/\<open>.text\<close> read).\<close>

record element =
  el_tag :: string
  el_attrs :: "(string \<times> string) list"
  el_text :: string

text \<open>An HTTP response as axios hands it over: \<open>status\<close>, \<open>data\<close>, \<open>headers\<close>
  (with \<open>headers['set-cookie']\<close>, an array, kept apart). The object \<open>{ data: stdout }\<close>
  that \<open>crawlWithCurl\<close> builds has no status and no headers.\<close>

record response =
  resp_status :: "int option"
  resp_data :: string
  resp_headers :: "headers option"
  resp_set_cookie :: "string list option"

datatype outcome = NetError string | Responded response

datatype request =
    Get target headers
  | RobotsGet string
  | Post string "(string \<times> string) list" headers

datatype event =
    Sent request
  | Delay int
  | Browse string
  | Exec string

datatype error =
    TransportError string
  | StatusError int
  | BasicAuthMissing
  | BearerAuthMissing
  | CookieAuthMissing
  | FormAuthMissing
  | FormAuthFailed error
  | TypeError

text \<open>The object returned by the robots-parser library, opaque to the crawler.\<close>

datatype robots = Robots string string

text \<open>What \<open>page.evaluate\<close> reads from the browser's DOM in \<open>crawlWithPuppeteer\<close>.\<close>

record rendered =
  dom_title :: string
  dom_location :: string
  dom_innerText :: string
  dom_outerHTML :: string
  dom_anchors :: "(string \<times> string \<times> string) list"
  dom_imgs :: "(string \<times> string \<times> string) list"
  dom_meta_content :: "string \<Rightarrow> string option"

text \<open>
  Everything outside the class: the network (answering the request issued as the
  \<open>t\<close>-th event of the session), the libraries cheerio, URL, robots-parser and Buffer,
  the built-in \<open>String.prototype.trim\<close> (which strips every Unicode white space), the
  clock, the headless browser and the curl child process.
\<close>

record env =
  net :: "nat \<Rightarrow> request \<Rightarrow> outcome"
  cheerio_load :: "string \<Rightarrow> element list"
  cheerio_html :: "element list \<Rightarrow> string"
  url_resolve :: "string \<Rightarrow> string \<Rightarrow> string option"
  url_origin :: "string \<Rightarrow> string option"
  robotsParser :: "string \<Rightarrow> string \<Rightarrow> robots option"
  isAllowed :: "robots \<Rightarrow> string \<Rightarrow> bool"
  base64 :: "string \<Rightarrow> string"
  js_trim :: "string \<Rightarrow> string"
  now :: "nat \<Rightarrow> string"
  browser :: "nat \<Rightarrow> string \<Rightarrow> string + rendered"
  exec_curl :: "nat \<Rightarrow> string \<Rightarrow> string + string \<times> string"

datatype cookies = CookieArray "(string \<times> string) list" | CookieString string

record credentials =
  username :: "string option"
  password :: "string option"
  token :: "string option"
  cookies :: "cookies option"
  loginUrl :: "string option"
  loginData :: "(string \<times> string) list option"

record auth =
  auth_type :: string
  auth_credentials :: credentials

text \<open>\<open>this.options\<close>.\<close>

record config =
  maxDepth :: int
  delay :: int
  maxPages :: int
  userAgent :: string
  respectRobots :: bool
  followRedirects :: bool
  timeout :: int
  retries :: int
  concurrent :: int
  auth :: "auth option"

text \<open>The mutable fields of a crawler (\<open>visitedUrls\<close>, \<open>crawledData\<close>,
  \<open>robotsCache\<close>), the events it has caused so far, and the next free object address.\<close>

record state =
  visitedUrls :: "target fset"
  crawledData :: "page list"
  robotsCache :: "string \<rightharpoonup> robots"
  trace :: "event list"
  next_ref :: nat

definition init :: state where
  "init = \<lparr>visitedUrls = {||}, crawledData = [], robotsCache = Map.empty, trace = [], next_ref = 0\<rparr>"

section \<open>Small JavaScript helpers\<close>

text \<open>\<open>toLowerCase\<close> on the ASCII letters. css-select, which cheerio uses, compares
  the value of \<open>http-equiv\<close> in a selector without regard to case; against a pattern made
  of ASCII letters and a hyphen only the ASCII letters matter.\<close>

definition lower_char :: "char \<Rightarrow> char" where
  "lower_char c =
     (case map_of (zip ''ABCDEFGHIJKLMNOPQRSTUVWXYZ'' ''abcdefghijklmnopqrstuvwxyz'') c of
        None \<Rightarrow> c
      | Some l \<Rightarrow> l)"

definition lowercase :: "string \<Rightarrow> string" where
  "lowercase str = map lower_char str"

text \<open>\<open>v || d\<close> for a string-or-undefined \<open>v\<close>: the empty string is falsy.\<close>

definition or_else :: "string option \<Rightarrow> string \<Rightarrow> string" where
  "or_else v d = (case v of None \<Rightarrow> d | Some s \<Rightarrow> if s = [] then d else s)"

definition falsy :: "string option \<Rightarrow> bool" where
  "falsy v = (case v of None \<Rightarrow> True | Some s \<Rightarrow> s = [])"

text \<open>\<open>xs.slice(0, n)\<close>: a negative \<open>n\<close> counts from the end.\<close>

definition slice0 :: "int \<Rightarrow> 'a list \<Rightarrow> 'a list" where
  "slice0 n xs = (if 0 \<le> n then take (nat n) xs else take (length xs - nat (- n)) xs)"

definition attr :: "element \<Rightarrow> string \<Rightarrow> string option" where
  "attr e name = map_of (el_attrs e) name"

text \<open>\<open>$(selector).attr(name)\<close> reads the attribute of the first matched element.\<close>

definition first_attr :: "(element \<Rightarrow> bool) \<Rightarrow> element list \<Rightarrow> string \<Rightarrow> string option" where
  "first_attr sel doc name = (case filter sel doc of [] \<Rightarrow> None | e # _ \<Rightarrow> attr e name)"

definition all_text :: "(element \<Rightarrow> bool) \<Rightarrow> element list \<Rightarrow> string" where
  "all_text sel doc = concat (map el_text (filter sel doc))"

definition first_text :: "(element \<Rightarrow> bool) \<Rightarrow> element list \<Rightarrow> string" where
  "first_text sel doc = (case filter sel doc of [] \<Rightarrow> [] | e # _ \<Rightarrow> el_text e)"

definition has_tag :: "string \<Rightarrow> element \<Rightarrow> bool" where
  "has_tag t e = (el_tag e = t)"

definition meta_named :: "string \<Rightarrow> element \<Rightarrow> bool" where
  "meta_named n e = (el_tag e = ''meta'' \<and> attr e ''name'' = Some n)"

text \<open>
  \<open>new URL(href, base).href\<close>. The base is converted to a string first; a link object
  becomes \<open>[object Object]\<close>, which is no absolute URL, so the constructor throws
  whatever \<open>href\<close> is.
\<close>

definition new_URL :: "env \<Rightarrow> string \<Rightarrow> target \<Rightarrow> string option" where
  "new_URL E href base = (case base of Url b \<Rightarrow> url_resolve E href b | LinkObject _ _ \<Rightarrow> None)"

section \<open>Extraction\<close>

definition link_of :: "env \<Rightarrow> target \<Rightarrow> element \<Rightarrow> link list" where
  "link_of E baseUrl e =
     (case attr e ''href'' of
        None \<Rightarrow> []
      | Some href \<Rightarrow>
          if href = [] then []
          else (case new_URL E href baseUrl of
                  None \<Rightarrow> []
                | Some absoluteUrl \<Rightarrow>
                    [\<lparr>link_text = js_trim E (el_text e), link_url = absoluteUrl,
                      link_title = or_else (attr e ''title'') [],
                      link_target = Some (or_else (attr e ''target'') ''_self'')\<rparr>]))"

definition anchors :: "element list \<Rightarrow> element list" where
  "anchors doc = filter (\<lambda>e. el_tag e = ''a'' \<and> attr e ''href'' \<noteq> None) doc"

definition extractLinks :: "env \<Rightarrow> element list \<Rightarrow> target \<Rightarrow> link list" where
  "extractLinks E doc baseUrl = concat (map (link_of E baseUrl) (anchors doc))"

definition img_of :: "env \<Rightarrow> target \<Rightarrow> element \<Rightarrow> img list" where
  "img_of E baseUrl e =
     (case attr e ''src'' of
        None \<Rightarrow> []
      | Some src \<Rightarrow>
          if src = [] then []
          else (case new_URL E src baseUrl of
                  None \<Rightarrow> []
                | Some absoluteUrl \<Rightarrow>
                    [\<lparr>img_src = absoluteUrl, img_alt = or_else (attr e ''alt'') [],
                      img_title = or_else (attr e ''title'') [],
                      img_width = Some (or_else (attr e ''width'') []),
                      img_height = Some (or_else (attr e ''height'') [])\<rparr>]))"

definition extractImages :: "env \<Rightarrow> element list \<Rightarrow> target \<Rightarrow> img list" where
  "extractImages E doc baseUrl =
     concat (map (img_of E baseUrl) (filter (\<lambda>e. el_tag e = ''img'' \<and> attr e ''src'' \<noteq> None) doc))"

definition meta_http_equiv :: "string \<Rightarrow> element \<Rightarrow> bool" where
  "meta_http_equiv v e =
     (el_tag e = ''meta''
      \<and> (case attr e ''http-equiv'' of None \<Rightarrow> False | Some x \<Rightarrow> lowercase x = lowercase v))"

definition meta_with_charset :: "element \<Rightarrow> bool" where
  "meta_with_charset e = (el_tag e = ''meta'' \<and> attr e ''charset'' \<noteq> None)"

definition extract_meta :: "element list \<Rightarrow> (string \<times> string) list" where
  "extract_meta doc =
     [(''description'', or_else (first_attr (meta_named ''description'') doc ''content'') []),
      (''keywords'', or_else (first_attr (meta_named ''keywords'') doc ''content'') []),
      (''author'', or_else (first_attr (meta_named ''author'') doc ''content'') []),
      (''viewport'', or_else (first_attr (meta_named ''viewport'') doc ''content'') []),
      (''charset'',
         or_else (first_attr meta_with_charset doc ''charset'')
           (or_else (first_attr (meta_http_equiv ''Content-Type'') doc ''content'') []))]"

definition extractPageData :: "env \<Rightarrow> nat \<Rightarrow> element list \<Rightarrow> target \<Rightarrow> response \<Rightarrow> page" where
  "extractPageData E t doc u resp =
     \<lparr>page_title =
        (let t1 = js_trim E (all_text (has_tag ''title'') doc);
             t2 = js_trim E (first_text (has_tag ''h1'') doc)
         in if t1 \<noteq> [] then t1 else if t2 \<noteq> [] then t2 else ''No Title''),
      page_url = u,
      page_timestamp = now E t,
      page_text = js_trim E (all_text (has_tag ''body'') doc),
      page_html = cheerio_html E doc,
      page_links = extractLinks E doc u,
      page_images = extractImages E doc u,
      page_meta = extract_meta doc,
      page_statusCode =
        Some (case resp_status resp of None \<Rightarrow> 200 | Some c \<Rightarrow> if c = 0 then 200 else c),
      page_contentType =
        Some (or_else (case resp_headers resp of None \<Rightarrow> None | Some h \<Rightarrow> map_of h ''content-type'')
                ''text/html'')\<rparr>"

section \<open>Requests, authentication and retries\<close>

definition log_event :: "event \<Rightarrow> state \<Rightarrow> state" where
  "log_event ev s = s\<lparr>trace := trace s @ [ev]\<rparr>"

text \<open>\<open>await this.delay(ms)\<close>.\<close>

definition sleep :: "int \<Rightarrow> state \<Rightarrow> state" where
  "sleep ms s = log_event (Delay ms) s"

text \<open>
  One call of axios at the moment \<open>t\<close>: it rejects on a transport error and on a
  status that \<open>validateStatus\<close> refuses, and resolves with the response otherwise.
\<close>

definition axios :: "env \<Rightarrow> nat \<Rightarrow> request \<Rightarrow> (int \<Rightarrow> bool) \<Rightarrow> error + response" where
  "axios E t req validateStatus =
     (case net E t req of
        NetError m \<Rightarrow> Inl (TransportError m)
      | Responded r \<Rightarrow>
          (case resp_status r of
             None \<Rightarrow> Inr r
           | Some c \<Rightarrow> if validateStatus c then Inr r else Inl (StatusError c)))"

definition authenticateBasic :: "env \<Rightarrow> credentials \<Rightarrow> error + headers" where
  "authenticateBasic E c =
     (if falsy (username c) \<or> falsy (password c) then Inl BasicAuthMissing
      else Inr [(''Authorization'',
                 ''Basic '' @ base64 E (or_else (username c) [] @ '':'' @ or_else (password c) []))])"

definition authenticateBearer :: "credentials \<Rightarrow> error + headers" where
  "authenticateBearer c =
     (if falsy (token c) then Inl BearerAuthMissing
      else Inr [(''Authorization'', ''Bearer '' @ or_else (token c) [])])"

fun join :: "string \<Rightarrow> string list \<Rightarrow> string" where
  "join sep [] = []"
| "join sep [x] = x"
| "join sep (x # y # ys) = x @ sep @ join sep (y # ys)"

definition authenticateCookie :: "credentials \<Rightarrow> error + headers" where
  "authenticateCookie c =
     (case cookies c of
        None \<Rightarrow> Inl CookieAuthMissing
      | Some (CookieString str) \<Rightarrow>
          if str = [] then Inl CookieAuthMissing else Inr [(''Cookie'', str)]
      | Some (CookieArray cs) \<Rightarrow>
          Inr [(''Cookie'', join ''; '' (map (\<lambda>(n, v). n @ ''='' @ v) cs))])"

definition authenticateForm ::
  "env \<Rightarrow> config \<Rightarrow> credentials \<Rightarrow> state \<Rightarrow> (error + headers option) \<times> state" where
  "authenticateForm E cfg c s =
     (case (loginUrl c, loginData c) of
        (Some lu, Some ld) \<Rightarrow>
          if lu = [] then (Inl FormAuthMissing, s)
          else
            (let req = Post lu ld [(''Content-Type'', ''application/x-www-form-urlencoded''),
                                   (''User-Agent'', userAgent cfg)];
                 s1 = log_event (Sent req) s
             in case axios E (length (trace s)) req (\<lambda>status. 200 \<le> status \<and> status < 400) of
                  Inl e \<Rightarrow> (Inl (FormAuthFailed e), s1)
                | Inr resp \<Rightarrow>
                    (case resp_set_cookie resp of
                       None \<Rightarrow> (Inr None, s1)
                     | Some setCookieHeaders \<Rightarrow>
                         if setCookieHeaders = [] then (Inr None, s1)
                         else (Inr (Some [(''Cookie'',
                                 join ''; '' (map (takeWhile (\<lambda>ch. ch \<noteq> CHR '';'')) setCookieHeaders))]),
                               s1)))
      | _ \<Rightarrow> (Inl FormAuthMissing, s))"

text \<open>
  \<open>authenticate\<close> is an async function whose \<open>try\<close> block returns the result of the
  chosen method without awaiting it. \<open>authenticateBasic\<close> and \<open>authenticateBearer\<close> are
  synchronous: what they throw is thrown inside the \<open>try\<close>, caught, logged, and \<open>null\<close>
  is returned. \<open>authenticateCookie\<close> and \<open>authenticateForm\<close> are async: they return a
  promise, the \<open>try\<close> block is left by \<open>return\<close>, and a rejection of that promise
  becomes the rejection of \<open>authenticate\<close> itself.
\<close>

definition authenticate :: "env \<Rightarrow> config \<Rightarrow> state \<Rightarrow> (error + headers option) \<times> state" where
  "authenticate E cfg s =
     (case auth cfg of
        None \<Rightarrow> (Inr None, s)
      | Some a \<Rightarrow>
          if auth_type a = ''basic'' then
            (case authenticateBasic E (auth_credentials a) of
               Inl e \<Rightarrow> (Inr None, s) | Inr h \<Rightarrow> (Inr (Some h), s))
          else if auth_type a = ''bearer'' then
            (case authenticateBearer (auth_credentials a) of
               Inl e \<Rightarrow> (Inr None, s) | Inr h \<Rightarrow> (Inr (Some h), s))
          else if auth_type a = ''cookie'' then
            (case authenticateCookie (auth_credentials a) of
               Inl e \<Rightarrow> (Inl e, s) | Inr h \<Rightarrow> (Inr (Some h), s))
          else if auth_type a = ''form'' then authenticateForm E cfg (auth_credentials a) s
          else (Inr None, s))"

definition base_headers :: "config \<Rightarrow> headers" where
  "base_headers cfg =
     [(''User-Agent'', userAgent cfg),
      (''Accept'', ''text/html,application/xhtml+xml,application/xml;q=0.9,*/*;q=0.8''),
      (''Accept-Language'', ''en-US,en;q=0.5''),
      (''Accept-Encoding'', ''gzip, deflate''),
      (''Connection'', ''keep-alive''),
      (''Upgrade-Insecure-Requests'', ''1'')]"

text \<open>
  The loop \<open>for (let attempt = 1; attempt <= this.options.retries; attempt++)\<close> of
  \<open>makeRequest\<close>. When the loop ends without having run, the function returns
  \<open>undefined\<close>.
\<close>

function request_loop ::
  "env \<Rightarrow> config \<Rightarrow> request \<Rightarrow> int \<Rightarrow> state \<Rightarrow> (error + response option) \<times> state" where
  "request_loop E cfg req attempt s =
     (if attempt \<le> retries cfg then
        (let s1 = log_event (Sent req) s
         in case axios E (length (trace s)) req (\<lambda>status. 200 \<le> status \<and> status < 300) of
              Inr resp \<Rightarrow> (Inr (Some resp), s1)
            | Inl err \<Rightarrow>
                if attempt = retries cfg then (Inl err, s1)
                else request_loop E cfg req (attempt + 1) (sleep (delay cfg * attempt) s1))
      else (Inr None, s))"
  by pat_completeness auto
termination
  by (relation "measure (\<lambda>(E, cfg, req, attempt, s). nat (retries cfg + 1 - attempt))") auto

text \<open>Every caller passes no \<open>options\<close>, so the request is built from the
  configuration and the authentication headers alone.\<close>

definition makeRequest ::
  "env \<Rightarrow> config \<Rightarrow> target \<Rightarrow> state \<Rightarrow> (error + response option) \<times> state" where
  "makeRequest E cfg u s =
     (case authenticate E cfg s of
        (Inl e, s1) \<Rightarrow> (Inl e, s1)
      | (Inr authHeaders, s1) \<Rightarrow>
          request_loop E cfg
            (Get u (base_headers cfg @ (case authHeaders of None \<Rightarrow> [] | Some h \<Rightarrow> h))) 1 s1)"

section \<open>Robots gate\<close>

text \<open>\<open>new URL(url)\<close> and the template \<open>${protocol}//${host}/robots.txt\<close>; the
  constructor throws on a link object, as in \<open>new_URL\<close>.\<close>

definition robots_url :: "env \<Rightarrow> target \<Rightarrow> (string \<times> string) option" where
  "robots_url E u =
     (case u of
        Url str \<Rightarrow> (case url_origin E str of None \<Rightarrow> None | Some org \<Rightarrow> Some (str, org @ ''/robots.txt''))
      | LinkObject _ _ \<Rightarrow> None)"

definition checkRobotsTxt :: "env \<Rightarrow> target \<Rightarrow> state \<Rightarrow> bool \<times> state" where
  "checkRobotsTxt E u s =
     (case robots_url E u of
        None \<Rightarrow> (True, s)
      | Some (str, robotsUrl) \<Rightarrow>
          (case robotsCache s robotsUrl of
             Some cached \<Rightarrow> (isAllowed E cached str, s)
           | None \<Rightarrow>
               (let s1 = log_event (Sent (RobotsGet robotsUrl)) s
                in case axios E (length (trace s)) (RobotsGet robotsUrl)
                          (\<lambda>status. 200 \<le> status \<and> status < 300) of
                     Inl e \<Rightarrow> (True, s1)
                   | Inr resp \<Rightarrow>
                       (case robotsParser E robotsUrl (resp_data resp) of
                          None \<Rightarrow> (True, s1)
                        | Some parsed \<Rightarrow>
                            (isAllowed E parsed str,
                             s1\<lparr>robotsCache := (robotsCache s1)(robotsUrl \<mapsto> parsed)\<rparr>)))))"

section \<open>The three crawl methods\<close>

text \<open>
  The part of the \<open>try\<close> block of \<open>crawlWithAxios\<close> that can throw: \<open>makeRequest\<close>,
  then \<open>response.data\<close> (a TypeError when \<open>makeRequest\<close> returned \<open>undefined\<close>), then
  cheerio and \<open>extractPageData\<close>.
\<close>

definition fetch_page ::
  "env \<Rightarrow> config \<Rightarrow> target \<Rightarrow> state \<Rightarrow> (error + element list \<times> page) \<times> state" where
  "fetch_page E cfg u s =
     (case makeRequest E cfg u s of
        (Inl e, s1) \<Rightarrow> (Inl e, s1)
      | (Inr None, s1) \<Rightarrow> (Inl TypeError, s1)
      | (Inr (Some resp), s1) \<Rightarrow>
          (let doc = cheerio_load E (resp_data resp)
           in (Inr (doc, extractPageData E (length (trace s1)) doc u resp), s1)))"

text \<open>\<open>this.crawledData.push(pageData); this.visitedUrls.add(url)\<close>.\<close>

definition record_page :: "target \<Rightarrow> page \<Rightarrow> state \<Rightarrow> state" where
  "record_page u pageData s =
     s\<lparr>crawledData := crawledData s @ [pageData], visitedUrls := finsert u (visitedUrls s)\<rparr>"

text \<open>The objects that the second call of \<open>extractLinks\<close> creates, each at a fresh
  address.\<close>

definition allocate :: "link list \<Rightarrow> state \<Rightarrow> target list \<times> state" where
  "allocate links s =
     (map2 LinkObject [next_ref s ..< next_ref s + length links] links,
      s\<lparr>next_ref := next_ref s + length links\<rparr>)"

text \<open>
  \<open>crawlWithAxios(url, options)\<close>, with \<open>options.depth\<close> and \<open>options.retries\<close> as
  natural numbers: the code only tests them with \<open>> 0\<close> and decrements them after that
  test, so an absent field behaves as 0. The loop over the links calls the function with
  the link object itself and with \<open>{ depth: options.depth - 1 }\<close>, that is without
  retries. The function never rejects: whatever is thrown in the \<open>try\<close> block is caught.
\<close>

function crawlWithAxios ::
    "env \<Rightarrow> config \<Rightarrow> target \<Rightarrow> nat \<Rightarrow> nat \<Rightarrow> state \<Rightarrow> page option \<times> state"
  and crawl_links :: "env \<Rightarrow> config \<Rightarrow> target list \<Rightarrow> nat \<Rightarrow> state \<Rightarrow> state"
where
  "crawlWithAxios E cfg u depth rts s =
     (if u |\<in>| visitedUrls s then (None, s)
      else if maxPages cfg \<le> int (fcard (visitedUrls s)) then (None, s)
      else
        (case (if respectRobots cfg then checkRobotsTxt E u s else (True, s)) of
           (canCrawl, s1) \<Rightarrow>
             if \<not> canCrawl then (None, s1)
             else
               (case fetch_page E cfg u s1 of
                  (Inr (doc, pageData), s2) \<Rightarrow>
                    (let s3 = record_page u pageData s2
                     in if 0 < depth then
                          (case allocate (extractLinks E doc u) s3 of
                             (links, s4) \<Rightarrow>
                               (Some pageData,
                                crawl_links E cfg (slice0 (concurrent cfg) links) (depth - 1) s4))
                        else (Some pageData, s3))
                | (Inl e, s2) \<Rightarrow>
                    if 0 < rts then crawlWithAxios E cfg u depth (rts - 1) (sleep (delay cfg * 2) s2)
                    else (None, s2))))"
| "crawl_links E cfg [] depth s = s"
| "crawl_links E cfg (l # ls) depth s =
     crawl_links E cfg ls depth (snd (crawlWithAxios E cfg l depth 0 (sleep (delay cfg) s)))"
  by pat_completeness auto
termination
  by (relation "measures
        [case_sum (\<lambda>(E, cfg, u, depth, rts, s). depth) (\<lambda>(E, cfg, ls, depth, s). depth),
         case_sum (\<lambda>_. 0) (\<lambda>_. 1),
         case_sum (\<lambda>(E, cfg, u, depth, rts, s). rts) (\<lambda>(E, cfg, ls, depth, s). length ls)]")
     auto

definition puppeteer_page :: "env \<Rightarrow> nat \<Rightarrow> rendered \<Rightarrow> page" where
  "puppeteer_page E t r =
     \<lparr>page_title = dom_title r,
      page_url = Url (dom_location r),
      page_timestamp = now E t,
      page_text = dom_innerText r,
      page_html = dom_outerHTML r,
      page_links = map (\<lambda>(txt, href, ttl).
                      \<lparr>link_text = js_trim E txt, link_url = href, link_title = ttl, link_target = None\<rparr>)
                    (dom_anchors r),
      page_images = map (\<lambda>(src, alt, ttl).
                      \<lparr>img_src = src, img_alt = alt, img_title = ttl,
                       img_width = None, img_height = None\<rparr>)
                    (dom_imgs r),
      page_meta =
        [(''description'', or_else (dom_meta_content r ''description'') []),
         (''keywords'', or_else (dom_meta_content r ''keywords'') []),
         (''author'', or_else (dom_meta_content r ''author'') [])],
      page_statusCode = None,
      page_contentType = None\<rparr>"

text \<open>\<open>crawlWithPuppeteer(url)\<close>: the browser either fails at some step (launch,
  navigation, evaluation, screenshot) or hands over the rendered document.\<close>

definition crawlWithPuppeteer :: "env \<Rightarrow> config \<Rightarrow> string \<Rightarrow> state \<Rightarrow> page option \<times> state" where
  "crawlWithPuppeteer E cfg u s =
     (let s1 = log_event (Browse u) s
      in case browser E (length (trace s)) u of
           Inl err \<Rightarrow> (None, s1)
         | Inr r \<Rightarrow>
             (let pageData = puppeteer_page E (length (trace s1)) r
              in (Some pageData, record_page (Url u) pageData s1)))"

text \<open>\<open>crawlWithCurl(url)\<close>: the child process either fails or yields its standard
  output and standard error.\<close>

definition crawlWithCurl :: "env \<Rightarrow> config \<Rightarrow> string \<Rightarrow> state \<Rightarrow> page option \<times> state" where
  "crawlWithCurl E cfg u s =
     (let s1 = log_event (Exec u) s
      in case exec_curl E (length (trace s)) u of
           Inl err \<Rightarrow> (None, s1)
         | Inr (stdout, stderr) \<Rightarrow>
             (let doc = cheerio_load E stdout;
                  pageData = extractPageData E (length (trace s1)) doc (Url u)
                               \<lparr>resp_status = None, resp_data = stdout,
                                resp_headers = None, resp_set_cookie = None\<rparr>
              in (Some pageData, record_page (Url u) pageData s1)))"

section \<open>Observations on a run\<close>

text \<open>The targets of the page requests in a trace, and the addresses of the robots.txt
  requests in a trace, in the order they were sent.\<close>

definition page_requests :: "event list \<Rightarrow> target list" where
  "page_requests evs = concat (map (\<lambda>ev. case ev of Sent (Get u h) \<Rightarrow> [u] | _ \<Rightarrow> []) evs)"

definition robots_requests :: "event list \<Rightarrow> string list" where
  "robots_requests evs = concat (map (\<lambda>ev. case ev of Sent (RobotsGet r) \<Rightarrow> [r] | _ \<Rightarrow> []) evs)"

text \<open>An answer of the network on which axios rejects when it accepts the status codes
  from \<open>lo\<close> up to, not including, \<open>hi\<close>.\<close>

definition failed :: "int \<Rightarrow> int \<Rightarrow> outcome \<Rightarrow> bool" where
  "failed lo hi out =
     (case out of
        NetError m \<Rightarrow> True
      | Responded r \<Rightarrow> (case resp_status r of None \<Rightarrow> False | Some c \<Rightarrow> c < lo \<or> hi \<le> c))"

text \<open>At the moment \<open>t\<close> the robots.txt at \<open>rurl\<close> cannot be fetched (transport error or
  status outside 2xx) or cannot be parsed.\<close>

definition robots_unavailable :: "env \<Rightarrow> string \<Rightarrow> nat \<Rightarrow> bool" where
  "robots_unavailable E rurl t =
     (case net E t (RobotsGet rurl) of
        NetError m \<Rightarrow> True
      | Responded r \<Rightarrow>
          (case resp_status r of None \<Rightarrow> False | Some c \<Rightarrow> c < 200 \<or> 300 \<le> c)
          \<or> robotsParser E rurl (resp_data r) = None)"


text \<open>A step that leaves the visited set, the page records and the page requests as
  they were.\<close>

definition unchanged :: "state \<Rightarrow> state \<Rightarrow> bool" where
  "unchanged s s' =
     (visitedUrls s' = visitedUrls s \<and> crawledData s' = crawledData s \<and> next_ref s' = next_ref s
      \<and> page_requests (trace s') = page_requests (trace s))"

text \<open>The visited set has only grown from \<open>s\<close> to \<open>s'\<close>, and if it was within
  \<open>maxPages\<close> it still is.\<close>

definition grows_within :: "config \<Rightarrow> state \<Rightarrow> state \<Rightarrow> bool" where
  "grows_within cfg s s' =
     (visitedUrls s |\<subseteq>| visitedUrls s'
      \<and> (int (fcard (visitedUrls s)) \<le> maxPages cfg \<longrightarrow> int (fcard (visitedUrls s')) \<le> maxPages cfg))"

text \<open>The absolute URL that an element contributes to the links of a page with base URL
  \<open>b\<close>, if any.\<close>

definition href_of :: "env \<Rightarrow> string \<Rightarrow> element \<Rightarrow> string option" where
  "href_of E b e =
     (case attr e ''href'' of None \<Rightarrow> None | Some h \<Rightarrow> if h = [] then None else url_resolve E h b)"

text \<open>The key set of the metadata that \<open>extractPageData\<close> writes.\<close>

definition five_keys :: "string list" where
  "five_keys = [''description'', ''keywords'', ''author'', ''viewport'', ''charset'']"

section \<open>Example environments\<close>

text \<open>A small site: every page has the same document with two links; a request whose
  URL is a link object fails; robots.txt allows everything; the login is refused. The
  hrefs of the example documents are absolute URLs, which resolve to themselves, and
  their texts are ASCII, on which \<open>trim\<close> strips the ASCII white space.\<close>

definition is_space :: "char \<Rightarrow> bool" where
  "is_space c = (c \<in> set [CHR '' '', CHR 0x09, CHR 0x0A, CHR 0x0B, CHR 0x0C, CHR 0x0D])"

definition ascii_trim :: "string \<Rightarrow> string" where
  "ascii_trim str = rev (dropWhile is_space (rev (dropWhile is_space str)))"

definition anchor :: "string \<Rightarrow> string \<Rightarrow> element" where
  "anchor href txt = \<lparr>el_tag = ''a'', el_attrs = [(''href'', href)], el_text = txt\<rparr>"

definition home_doc :: "element list" where
  "home_doc =
     [\<lparr>el_tag = ''title'', el_attrs = [], el_text = ''Home''\<rparr>,
      \<lparr>el_tag = ''meta'', el_attrs = [(''name'', ''description''), (''content'', ''A page'')], el_text = []\<rparr>,
      anchor ''https://example.test/a'' ''first'',
      anchor ''https://example.test/b'' ''second'']"

definition ok :: "string \<Rightarrow> response" where
  "ok body = \<lparr>resp_status = Some 200, resp_data = body,
              resp_headers = Some [(''content-type'', ''text/html'')], resp_set_cookie = None\<rparr>"

definition web :: env where
  "web = \<lparr>net = (\<lambda>t req. case req of
                     Get (Url u) h \<Rightarrow> Responded (ok u)
                   | Get (LinkObject a l) h \<Rightarrow> NetError ''Invalid URL''
                   | RobotsGet r \<Rightarrow> Responded (ok ''User-agent: *'')
                   | Post l d h \<Rightarrow> Responded ((ok [])\<lparr>resp_status := Some 401\<rparr>)),
          cheerio_load = (\<lambda>body. home_doc),
          cheerio_html = (\<lambda>doc. []),
          url_resolve = (\<lambda>href base. Some href),
          url_origin = (\<lambda>u. Some ''https://example.test''),
          robotsParser = (\<lambda>u d. Some (Robots u d)),
          isAllowed = (\<lambda>r u. True),
          base64 = (\<lambda>x. x),
          js_trim = ascii_trim,
          now = (\<lambda>t. []),
          browser = (\<lambda>t u. Inr \<lparr>dom_title = ''Home'', dom_location = u, dom_innerText = [],
                                  dom_outerHTML = [], dom_anchors = [], dom_imgs = [],
                                  dom_meta_content = (\<lambda>n. None)\<rparr>),
          exec_curl = (\<lambda>t u. Inr ([], []))\<rparr>"

text \<open>The same site when no connection can be made.\<close>

definition down :: env where
  "down = web\<lparr>net := (\<lambda>t req. NetError ''ECONNREFUSED'')\<rparr>"

text \<open>The default options of the constructor, then the same with at most one link
  followed per page and no robots check.\<close>

definition cfg0 :: config where
  "cfg0 = \<lparr>maxDepth = 3, delay = 1000, maxPages = 50, userAgent = ''crawler'', respectRobots = True,
           followRedirects = True, timeout = 30000, retries = 3, concurrent = 5, auth = None\<rparr>"


definition seed :: target where
  "seed = Url ''https://example.test/''"

definition robots_txt :: string where
  "robots_txt = ''https://example.test/robots.txt''"


text \<open>A document with two anchors to one destination.\<close>

definition twice_doc :: "element list" where
  "twice_doc = [anchor ''https://example.test/a'' ''one'', anchor ''https://example.test/a'' ''two'']"

text \<open>Authentication options with Basic credentials and with a login form.\<close>

definition basic_creds :: "string option \<Rightarrow> string option \<Rightarrow> auth" where
  "basic_creds u p =
     \<lparr>auth_type = ''basic'',
      auth_credentials = \<lparr>username = u, password = p, token = None, cookies = None,
                          loginUrl = None, loginData = None\<rparr>\<rparr>"




definition charset_doc :: "element list" where
  "charset_doc =
     [\<lparr>el_tag = ''meta'',
       el_attrs = [(''http-equiv'', ''content-type''), (''content'', ''text/html; charset=utf-8'')],
       el_text = []\<rparr>]"

text \<open>The metadata that \<open>page.evaluate\<close> builds in \<open>crawlWithPuppeteer\<close>.\<close>

definition puppeteer_meta :: "rendered \<Rightarrow> (string \<times> string) list" where
  "puppeteer_meta r =
     [(''description'', or_else (dom_meta_content r ''description'') []),
      (''keywords'', or_else (dom_meta_content r ''keywords'') []),
      (''author'', or_else (dom_meta_content r ''author'') [])]"

text \<open>The links of a page record that a crawl at the given remaining depth follows: the
  first \<open>concurrent\<close> ones, as the objects allocated from address \<open>n\<close> on.\<close>

definition followed :: "config \<Rightarrow> nat \<Rightarrow> nat \<Rightarrow> page option \<Rightarrow> target list" where
  "followed cfg depth n r =
     (case r of
        None \<Rightarrow> []
      | Some p \<Rightarrow>
          if 0 < depth then
            slice0 (concurrent cfg)
              (map2 LinkObject [n ..< n + length (page_links p)] (page_links p))
          else [])"

text \<open>The list \<open>xs\<close> with its \<open>i\<close>-th element repeated \<open>ns ! i\<close> times.\<close>

definition repeated :: "nat list \<Rightarrow> 'a list \<Rightarrow> 'a list" where
  "repeated ns xs = concat (map2 replicate ns xs)"


declare crawlWithAxios.simps [simp del] request_loop.simps [simp del]

section \<open>Frame lemmas\<close>

lemma page_requests_append [simp]:
  "page_requests (xs @ ys) = page_requests xs @ page_requests ys"
  by (simp add: page_requests_def)

lemma page_requests_simps [simp]:
  "page_requests [] = []"
  "page_requests (Sent (Get u h) # evs) = u # page_requests evs"
  "page_requests (Sent (RobotsGet r) # evs) = page_requests evs"
  "page_requests (Sent (Post l d h) # evs) = page_requests evs"
  "page_requests (Delay n # evs) = page_requests evs"
  "page_requests (Browse b # evs) = page_requests evs"
  "page_requests (Exec b # evs) = page_requests evs"
  by (simp_all add: page_requests_def)

lemma unchanged_refl [simp]: "unchanged s s"
  by (simp add: unchanged_def)


lemma sleep_fields [simp]:
  "visitedUrls (sleep ms s) = visitedUrls s"
  "crawledData (sleep ms s) = crawledData s"
  "robotsCache (sleep ms s) = robotsCache s"
  "next_ref (sleep ms s) = next_ref s"
  "trace (sleep ms s) = trace s @ [Delay ms]"
  by (simp_all add: sleep_def log_event_def)

lemma log_event_fields [simp]:
  "visitedUrls (log_event ev s) = visitedUrls s"
  "crawledData (log_event ev s) = crawledData s"
  "robotsCache (log_event ev s) = robotsCache s"
  "next_ref (log_event ev s) = next_ref s"
  "trace (log_event ev s) = trace s @ [ev]"
  by (simp_all add: log_event_def)

lemma authenticateForm_frame:
  "authenticateForm E cfg c s = (r, s') \<Longrightarrow> unchanged s s' \<and> robotsCache s' = robotsCache s"
  by (auto simp: authenticateForm_def unchanged_def Let_def
           split: option.splits if_splits sum.splits)

lemma authenticate_frame:
  "authenticate E cfg s = (r, s') \<Longrightarrow> unchanged s s' \<and> robotsCache s' = robotsCache s"
proof (cases "auth cfg")
  case None
  then show "authenticate E cfg s = (r, s') \<Longrightarrow> ?thesis" by (auto simp: authenticate_def)
next
  case (Some a)
  assume eq: "authenticate E cfg s = (r, s')"
  show ?thesis
  proof (cases "auth_type a = ''form'' \<and> auth_type a \<noteq> ''basic'' \<and> auth_type a \<noteq> ''bearer''
                 \<and> auth_type a \<noteq> ''cookie''")
    case True
    with Some eq have "authenticateForm E cfg (auth_credentials a) s = (r, s')"
      by (simp add: authenticate_def)
    then show ?thesis by (rule authenticateForm_frame)
  next
    case False
    with Some eq have "s' = s"
      by (auto simp: authenticate_def split: if_splits sum.splits)
    then show ?thesis by simp
  qed
qed

lemma request_loop_frame:
  "request_loop E cfg req attempt s = (r, s') \<Longrightarrow>
     visitedUrls s' = visitedUrls s \<and> crawledData s' = crawledData s \<and> next_ref s' = next_ref s
     \<and> robotsCache s' = robotsCache s"
proof (induction E cfg req attempt s arbitrary: r s' rule: request_loop.induct)
  case (1 E cfg req attempt s)
  show ?case
  proof (cases "attempt \<le> retries cfg")
    case False
    with "1.prems" show ?thesis by (subst (asm) request_loop.simps) simp
  next
    case True
    note le = this
    show ?thesis
    proof (cases "axios E (length (trace s)) req (\<lambda>status. 200 \<le> status \<and> status < 300)")
      case (Inr resp)
      with "1.prems" le show ?thesis by (subst (asm) request_loop.simps) auto
    next
      case (Inl err)
      show ?thesis
      proof (cases "attempt = retries cfg")
        case True
        with "1.prems" Inl show ?thesis by (subst (asm) request_loop.simps) auto
      next
        case False
        with "1.prems" Inl le
        have "request_loop E cfg req (attempt + 1)
                (sleep (delay cfg * attempt) (log_event (Sent req) s)) = (r, s')"
          by (subst (asm) request_loop.simps) simp
        from "1.IH"[OF le refl Inl False this] show ?thesis by simp
      qed
    qed
  qed
qed

lemma makeRequest_frame:
  assumes "makeRequest E cfg u s = (r, s')"
  shows "visitedUrls s' = visitedUrls s \<and> crawledData s' = crawledData s
         \<and> next_ref s' = next_ref s \<and> robotsCache s' = robotsCache s"
proof -
  obtain a s1 where a: "authenticate E cfg s = (a, s1)" by (cases "authenticate E cfg s")
  from authenticate_frame[OF a] have f1: "visitedUrls s1 = visitedUrls s"
    "crawledData s1 = crawledData s" "next_ref s1 = next_ref s" "robotsCache s1 = robotsCache s"
    by (simp_all add: unchanged_def)
  show ?thesis
  proof (cases a)
    case (Inl e)
    with assms a have "s' = s1" by (simp add: makeRequest_def)
    with f1 show ?thesis by simp
  next
    case (Inr h)
    with assms a have "request_loop E cfg
        (Get u (base_headers cfg @ (case h of None \<Rightarrow> [] | Some x \<Rightarrow> x))) 1 s1 = (r, s')"
      by (simp add: makeRequest_def)
    from request_loop_frame[OF this] f1 show ?thesis by simp
  qed
qed

lemma fetch_page_frame:
  assumes "fetch_page E cfg u s = (r, s')"
  shows "visitedUrls s' = visitedUrls s \<and> crawledData s' = crawledData s
         \<and> next_ref s' = next_ref s \<and> robotsCache s' = robotsCache s"
proof -
  obtain a s1 where a: "makeRequest E cfg u s = (a, s1)" by (cases "makeRequest E cfg u s")
  with assms have "s' = s1"
    by (auto simp: fetch_page_def Let_def split: sum.splits option.splits)
  with makeRequest_frame[OF a] show ?thesis by simp
qed

lemma checkRobotsTxt_frame:
  "checkRobotsTxt E u s = (b, s') \<Longrightarrow> unchanged s s'"
  by (auto simp: checkRobotsTxt_def unchanged_def Let_def
           split: option.splits prod.splits sum.splits)


lemma axios_failed:
  "failed lo hi (net E t req) \<Longrightarrow> \<exists>e. axios E t req (\<lambda>c. lo \<le> c \<and> c < hi) = Inl e"
  by (auto simp: failed_def axios_def split: outcome.splits option.splits)

lemma request_loop_all_fail:
  "\<forall>t. failed 200 300 (net E t (Get u h)) \<Longrightarrow> attempt \<le> retries cfg \<Longrightarrow>
     \<exists>e s'. request_loop E cfg (Get u h) attempt s = (Inl e, s')
        \<and> axios E (length (trace s') - 1) (Get u h) (\<lambda>c. 200 \<le> c \<and> c < 300) = Inl e
        \<and> page_requests (trace s') =
            page_requests (trace s) @ replicate (nat (retries cfg - attempt + 1)) u"
proof (induction E cfg "Get u h" attempt s rule: request_loop.induct)
  case (1 E cfg attempt s)
  have "failed 200 300 (net E (length (trace s)) (Get u h))" using "1.prems" by simp
  then obtain e where e: "axios E (length (trace s)) (Get u h) (\<lambda>c. 200 \<le> c \<and> c < 300) = Inl e"
    using axios_failed by blast
  show ?case
  proof (cases "attempt = retries cfg")
    case True
    then show ?thesis using e
      by (subst request_loop.simps) simp
  next
    case False
    with "1.prems" have lt: "attempt + 1 \<le> retries cfg" by simp
    have n: "nat (retries cfg - attempt + 1) = Suc (nat (retries cfg - (attempt + 1) + 1))"
      using lt by simp
    from "1.hyps"[OF "1.prems"(2) refl e False "1.prems"(1) lt]
    obtain e' s' where r: "request_loop E cfg (Get u h) (attempt + 1)
                (sleep (delay cfg * attempt) (log_event (Sent (Get u h)) s)) = (Inl e', s')"
        "axios E (length (trace s') - 1) (Get u h) (\<lambda>c. 200 \<le> c \<and> c < 300) = Inl e'"
        "page_requests (trace s') =
           page_requests (trace (sleep (delay cfg * attempt) (log_event (Sent (Get u h)) s)))
            @ replicate (nat (retries cfg - (attempt + 1) + 1)) u"
      by blast
    show ?thesis using e False "1.prems" r
      by (subst request_loop.simps) (simp add: n replicate_app_Cons_same)
  qed
qed

lemma request_loop_first_event:
  "attempt \<le> retries cfg \<Longrightarrow>
     \<exists>evs. trace (snd (request_loop E cfg req attempt s)) = trace s @ Sent req # evs"
proof (induction E cfg req attempt s rule: request_loop.induct)
  case (1 E cfg req attempt s)
  show ?case
  proof (cases "axios E (length (trace s)) req (\<lambda>status. 200 \<le> status \<and> status < 300)")
    case (Inr resp)
    with "1.prems" show ?thesis by (subst request_loop.simps) simp
  next
    case (Inl err)
    show ?thesis
    proof (cases "attempt = retries cfg")
      case True
      with Inl show ?thesis by (subst request_loop.simps) simp
    next
      case False
      with "1.prems" have lt: "attempt + 1 \<le> retries cfg" by simp
      from "1.IH"[OF "1.prems" refl Inl False lt]
      obtain evs where "trace (snd (request_loop E cfg req (attempt + 1)
             (sleep (delay cfg * attempt) (log_event (Sent req) s)))) =
           trace (sleep (delay cfg * attempt) (log_event (Sent req) s)) @ Sent req # evs"
        by blast
      with "1.prems" Inl False show ?thesis by (subst request_loop.simps) simp
    qed
  qed
qed

section \<open>Claims\<close>

text \<open>
  C10. For every URL already present in the visited set, a further call of
  \<open>crawlWithAxios\<close> on that URL returns \<open>null\<close> and leaves the whole crawler state as it
  was: the visited set, the collected page records, the robots cache, and the trace of
  requests and delays, so that no fetch is issued.
\<close>

theorem recrawl_visited_is_noop:
  "u |\<in>| visitedUrls s \<Longrightarrow> crawlWithAxios E cfg u depth rts s = (None, s)"
  by (subst crawlWithAxios.simps) simp

theorem recrawl_visited_is_noop_witness:
  "seed |\<in>| visitedUrls (init\<lparr>visitedUrls := {|seed|}\<rparr>)
   \<and> crawlWithAxios web cfg0 seed 2 1 (init\<lparr>visitedUrls := {|seed|}\<rparr>)
       = (None, init\<lparr>visitedUrls := {|seed|}\<rparr>)"
  using recrawl_visited_is_noop [of seed "init\<lparr>visitedUrls := {|seed|}\<rparr>" web cfg0 2 1]
  by simp

text \<open>
  C1. With \<open>retries = 3\<close>, a fetch that fails on every attempt: \<open>makeRequest\<close> sends
  the request three times in all (one first attempt and two retries, with delays of
  \<open>delay\<close> and \<open>2 * delay\<close> between them), not four times, and then throws the error
  of the third attempt. The option is described as the number of retries in index.js,
  and \<open>crawlWithAxios\<close> counts its own \<open>options.retries\<close> that way.
\<close>

theorem makeRequest_attempts_with_three_retries:
  assumes "retries cfg = 3"
    and "authenticate E cfg s = (Inr ah, s1)"
    and "\<forall>t h. failed 200 300 (net E t (Get u h))"
  shows "\<exists>e s'. makeRequest E cfg u s = (Inl e, s')
           \<and> page_requests (trace s') = page_requests (trace s) @ [u, u, u]
           \<and> axios E (length (trace s') - 1)
                 (Get u (base_headers cfg @ (case ah of None \<Rightarrow> [] | Some h \<Rightarrow> h)))
                 (\<lambda>c. 200 \<le> c \<and> c < 300) = Inl e"
proof -
  let ?h = "base_headers cfg @ (case ah of None \<Rightarrow> [] | Some h \<Rightarrow> h)"
  from assms(3) have f: "\<forall>t. failed 200 300 (net E t (Get u ?h))" by simp
  have le: "(1::int) \<le> retries cfg" using assms(1) by simp
  from request_loop_all_fail[OF f le, of s1]
  obtain e s' where r: "request_loop E cfg (Get u ?h) 1 s1 = (Inl e, s')"
      "axios E (length (trace s') - 1) (Get u ?h) (\<lambda>c. 200 \<le> c \<and> c < 300) = Inl e"
      "page_requests (trace s') = page_requests (trace s1) @ replicate (nat (retries cfg - 1 + 1)) u"
    by blast
  have "page_requests (trace s1) = page_requests (trace s)"
    using authenticate_frame[OF assms(2)] by (simp add: unchanged_def)
  moreover have "replicate (nat (retries cfg - 1 + 1)) u = [u, u, u]"
    using assms(1) by (simp add: numeral_3_eq_3)
  moreover have "makeRequest E cfg u s = (Inl e, s')"
    using assms(2) r(1) by (simp add: makeRequest_def)
  ultimately show ?thesis using r by auto
qed

theorem makeRequest_attempts_with_three_retries_witness:
  "retries cfg0 = 3
   \<and> fst (makeRequest down cfg0 seed init) = Inl (TransportError ''ECONNREFUSED'')
   \<and> page_requests (trace (snd (makeRequest down cfg0 seed init))) = [seed, seed, seed]"
proof -
  have h1: "retries cfg0 = 3" by (simp add: cfg0_def)
  have h2: "authenticate down cfg0 init = (Inr None, init)"
    by (simp add: authenticate_def cfg0_def)
  have h3: "\<forall>t h. failed 200 300 (net down t (Get seed h))"
    by (simp add: failed_def down_def web_def)
  from makeRequest_attempts_with_three_retries [OF h1 h2 h3]
  obtain e s' where r: "makeRequest down cfg0 seed init = (Inl e, s')"
      "page_requests (trace s') = page_requests (trace init) @ [seed, seed, seed]"
      "axios down (length (trace s') - 1) (Get seed (base_headers cfg0 @ []))
         (\<lambda>c. 200 \<le> c \<and> c < 300) = Inl e"
    by auto
  from r(3) have "e = TransportError ''ECONNREFUSED''"
    by (simp add: axios_def down_def web_def)
  with r h1 show ?thesis by (simp add: init_def)
qed

lemma robots_unavailable_check:
  assumes "robots_url E u = Some (str, rurl)" "robotsCache s rurl = None"
    "robots_unavailable E rurl (length (trace s))"
  shows "checkRobotsTxt E u s = (True, log_event (Sent (RobotsGet rurl)) s)"
  using assms
  by (auto simp: checkRobotsTxt_def robots_unavailable_def axios_def Let_def
           split: outcome.splits option.splits sum.splits)

lemma checkRobotsTxt_cache_other:
  assumes "\<forall>t. robots_unavailable E rurl t" "robotsCache s rurl = None"
  shows "robotsCache (snd (checkRobotsTxt E v s)) rurl = None"
proof (cases "robots_url E v")
  case None
  then show ?thesis using assms by (simp add: checkRobotsTxt_def)
next
  case (Some p)
  obtain str r where p: "p = (str, r)" by (cases p)
  show ?thesis
  proof (cases "r = rurl")
    case True
    have "robots_unavailable E rurl (length (trace s))" using assms(1) by simp
    from robots_unavailable_check[OF _ assms(2) this, of v str] Some p True assms(2)
    show ?thesis by simp
  next
    case False
    then show ?thesis using Some p assms(2)
      by (auto simp: checkRobotsTxt_def Let_def split: option.splits sum.splits)
  qed
qed

text \<open>
  C6. When the robots.txt of a host cannot be fetched or parsed (transport error, status
  outside 2xx, body that the parser rejects) at any moment of the session, and nothing
  is cached for it, the robots check of every URL of that host answers allow, as does
  the check of a URL that the URL constructor rejects; and no check, of whatever URL,
  puts an entry for that host into the cache, so the same holds for every later check.
\<close>

theorem robots_unavailable_allows:
  assumes "\<forall>t. robots_unavailable E rurl t" and "robotsCache s rurl = None"
  shows "(robots_url E u = None \<or> map_option snd (robots_url E u) = Some rurl
            \<longrightarrow> fst (checkRobotsTxt E u s))
         \<and> robotsCache (snd (checkRobotsTxt E v s)) rurl = None"
proof -
  have "fst (checkRobotsTxt E u s)" if "robots_url E u = None"
    using that by (simp add: checkRobotsTxt_def)
  moreover have "fst (checkRobotsTxt E u s)" if "map_option snd (robots_url E u) = Some rurl"
  proof -
    from that obtain str where "robots_url E u = Some (str, rurl)" by auto
    moreover have "robots_unavailable E rurl (length (trace s))" using assms(1) by simp
    ultimately show ?thesis using robots_unavailable_check assms(2) by simp
  qed
  ultimately show ?thesis using checkRobotsTxt_cache_other[OF assms] by blast
qed

theorem robots_unavailable_allows_witness:
  "fst (checkRobotsTxt down seed init)
   \<and> fst (checkRobotsTxt down seed (snd (checkRobotsTxt down seed init)))"
proof -
  let ?r = "''https://example.test/robots.txt''"
  have h1: "\<forall>t. robots_unavailable down ?r t"
    by (simp add: robots_unavailable_def down_def web_def)
  have h2: "robotsCache init ?r = None" by (simp add: init_def)
  have u: "map_option snd (robots_url down seed) = Some ?r"
    by (simp add: robots_url_def seed_def down_def web_def)
  from robots_unavailable_allows [OF h1 h2, of seed seed] u
  have a: "fst (checkRobotsTxt down seed init)"
    and h2': "robotsCache (snd (checkRobotsTxt down seed init)) ?r = None" by simp_all
  from robots_unavailable_allows [OF h1 h2', of seed seed] u a show ?thesis by simp
qed

lemma link_of_url:
  "map link_url (link_of E (Url b) e) = (case href_of E b e of None \<Rightarrow> [] | Some a \<Rightarrow> [a])"
  by (simp add: link_of_def href_of_def new_URL_def split: option.splits)

lemma map_filter_concat:
  "List.map_filter f xs = concat (map (\<lambda>x. case f x of None \<Rightarrow> [] | Some a \<Rightarrow> [a]) xs)"
  by (induction xs) (simp_all add: List.map_filter_simps split: option.splits)

text \<open>
  C7, as stated, fails: two anchors of one page with the same destination give two link
  records with the same absolute URL.
\<close>

theorem extractLinks_counterexample:
  "map link_url (extractLinks web twice_doc seed) =
     [''https://example.test/a'', ''https://example.test/a'']
   \<and> \<not> distinct (map link_url (extractLinks web twice_doc seed))"
  by (simp add: extractLinks_def anchors_def twice_doc_def anchor_def attr_def link_of_def
                new_URL_def seed_def web_def)

text \<open>
  C7, amended. The links of a page record are one link record for every anchor whose
  \<open>href\<close> is not empty and resolves against the page URL, in document order;
  duplicates are kept: the links of two documents put one after the other are the links
  of the first followed by the links of the second.
\<close>

theorem extractLinks_one_link_per_anchor:
  "extractLinks E (d1 @ d2) b = extractLinks E d1 b @ extractLinks E d2 b
   \<and> map link_url (extractLinks E doc (Url base)) =
       List.map_filter (href_of E base) (filter (\<lambda>e. el_tag e = ''a'') doc)"
proof
  show "extractLinks E (d1 @ d2) b = extractLinks E d1 b @ extractLinks E d2 b"
    by (simp add: extractLinks_def anchors_def)
  show "map link_url (extractLinks E doc (Url base)) =
       List.map_filter (href_of E base) (filter (\<lambda>e. el_tag e = ''a'') doc)"
  proof -
    let ?g = "\<lambda>e. case href_of E base e of None \<Rightarrow> [] | Some a \<Rightarrow> [a]"
    have "map link_url (extractLinks E doc (Url base)) = concat (map ?g (anchors doc))"
      by (simp add: extractLinks_def map_concat link_of_url comp_def)
    also have "\<dots> = concat (map ?g (filter (\<lambda>e. el_tag e = ''a'') doc))"
      by (induction doc) (auto simp: anchors_def href_of_def)
    also have "\<dots> = List.map_filter (href_of E base) (filter (\<lambda>e. el_tag e = ''a'') doc)"
      by (rule map_filter_concat [symmetric])
    finally show ?thesis .
  qed
qed

theorem extractLinks_one_link_per_anchor_witness:
  "extractLinks web (twice_doc @ twice_doc) seed = extractLinks web twice_doc seed @ extractLinks web twice_doc seed
   \<and> length (extractLinks web twice_doc seed) = 2"
proof -
  have "map link_url (extractLinks web twice_doc (Url ''https://example.test/'')) =
          [''https://example.test/a'', ''https://example.test/a'']"
    using extractLinks_one_link_per_anchor [of web twice_doc twice_doc seed twice_doc "''https://example.test/''"]
    by (simp add: twice_doc_def anchor_def href_of_def attr_def web_def)
  then have "length (map link_url (extractLinks web twice_doc seed)) = 2"
    by (simp add: seed_def)
  then show ?thesis
    using extractLinks_one_link_per_anchor [of web twice_doc twice_doc seed twice_doc "''https://example.test/''"]
    by simp
qed

lemma authenticate_basic_missing:
  assumes "auth cfg = Some a" "auth_type a = ''basic''"
    "falsy (username (auth_credentials a)) \<or> falsy (password (auth_credentials a))"
  shows "authenticate E cfg s = (Inr None, s)"
  using assms by (auto simp: authenticate_def authenticateBasic_def)

text \<open>
  C3, as stated, fails: with Basic authentication and an empty password the error is not
  surfaced, and the target URL is fetched, without an \<open>Authorization\<close> header.
\<close>

theorem basic_auth_counterexample:
  "fst (makeRequest web (cfg0\<lparr>auth := Some (basic_creds (Some ''admin'') (Some []))\<rparr>) seed init)
     = Inr (Some (ok ''https://example.test/''))
   \<and> trace (snd (makeRequest web (cfg0\<lparr>auth := Some (basic_creds (Some ''admin'') (Some []))\<rparr>) seed init))
     = [Sent (Get seed (base_headers cfg0))]"
  by (simp add: makeRequest_def authenticate_def authenticateBasic_def basic_creds_def falsy_def
        cfg0_def seed_def web_def init_def request_loop.simps axios_def ok_def base_headers_def)

text \<open>
  C3, amended. With Basic authentication where the username or the password is absent or
  empty, \<open>authenticateBasic\<close> fails with the missing-credentials error before any network
  call is made; \<open>authenticate\<close> catches that error and returns \<open>null\<close> without any
  request, and \<open>makeRequest\<close> then goes on as without authentication: when \<open>retries\<close> is
  at least 1 it sends the GET for the target URL with the standard headers, among which
  there is no \<open>Authorization\<close> header.
\<close>

theorem basic_auth_missing_credentials:
  assumes "auth cfg = Some a" and "auth_type a = ''basic''"
    and "falsy (username (auth_credentials a)) \<or> falsy (password (auth_credentials a))"
  shows "authenticateBasic E (auth_credentials a) = Inl BasicAuthMissing
         \<and> authenticate E cfg s = (Inr None, s)
         \<and> makeRequest E cfg u s = request_loop E cfg (Get u (base_headers cfg)) 1 s
         \<and> (1 \<le> retries cfg \<longrightarrow>
              (\<exists>evs. trace (snd (makeRequest E cfg u s)) = trace s @ Sent (Get u (base_headers cfg)) # evs))
         \<and> map_of (base_headers cfg) ''Authorization'' = None"
proof -
  have a: "authenticate E cfg s = (Inr None, s)"
    using assms by (rule authenticate_basic_missing)
  then have m: "makeRequest E cfg u s = request_loop E cfg (Get u (base_headers cfg)) 1 s"
    by (simp add: makeRequest_def)
  have "authenticateBasic E (auth_credentials a) = Inl BasicAuthMissing"
    using assms(3) by (auto simp: authenticateBasic_def)
  moreover have "map_of (base_headers cfg) ''Authorization'' = None"
    by (simp add: base_headers_def)
  ultimately show ?thesis
    using a m request_loop_first_event [of 1 cfg E "Get u (base_headers cfg)" s] by simp
qed

theorem basic_auth_missing_credentials_witness:
  "authenticate web (cfg0\<lparr>auth := Some (basic_creds (Some ''admin'') None)\<rparr>) init = (Inr None, init)
   \<and> take 1 (trace (snd (makeRequest web (cfg0\<lparr>auth := Some (basic_creds (Some ''admin'') None)\<rparr>) seed init)))
         = [Sent (Get seed (base_headers cfg0))]"
proof -
  let ?cfg = "cfg0\<lparr>auth := Some (basic_creds (Some ''admin'') None)\<rparr>"
  have h1: "auth ?cfg = Some (basic_creds (Some ''admin'') None)" by simp
  have h2: "auth_type (basic_creds (Some ''admin'') None) = ''basic''" by (simp add: basic_creds_def)
  have h3: "falsy (username (auth_credentials (basic_creds (Some ''admin'') None)))
            \<or> falsy (password (auth_credentials (basic_creds (Some ''admin'') None)))"
    by (simp add: basic_creds_def falsy_def)
  have h4: "1 \<le> retries ?cfg" by (simp add: cfg0_def)
  have h5: "base_headers ?cfg = base_headers cfg0" by (simp add: base_headers_def)
  note c = basic_auth_missing_credentials [OF h1 h2 h3, of web init seed]
  from c have a: "authenticate web ?cfg init = (Inr None, init)" by blast
  from c h4 have "\<exists>evs. trace (snd (makeRequest web ?cfg seed init)) =
      trace init @ Sent (Get seed (base_headers ?cfg)) # evs" by blast
  then have "\<exists>evs. trace (snd (makeRequest web ?cfg seed init)) =
      Sent (Get seed (base_headers cfg0)) # evs" by (simp add: h5 init_def)
  then have "take 1 (trace (snd (makeRequest web ?cfg seed init))) =
      [Sent (Get seed (base_headers cfg0))]" by auto
  with a show ?thesis by blast
qed

lemma checkRobotsTxt_hit:
  "robots_url E u = Some (str, rurl) \<Longrightarrow> robotsCache s rurl = Some r \<Longrightarrow>
     checkRobotsTxt E u s = (isAllowed E r str, s)"
  by (simp add: checkRobotsTxt_def)

lemma checkRobotsTxt_miss_trace:
  "robots_url E u = Some (str, rurl) \<Longrightarrow> robotsCache s rurl = None \<Longrightarrow>
     trace (snd (checkRobotsTxt E u s)) = trace s @ [Sent (RobotsGet rurl)]"
  by (simp add: checkRobotsTxt_def Let_def split: sum.splits option.splits)

lemma checkRobotsTxt_miss_success:
  "robots_url E u = Some (str, rurl) \<Longrightarrow> robotsCache s rurl = None \<Longrightarrow>
   axios E (length (trace s)) (RobotsGet rurl) (\<lambda>c. 200 \<le> c \<and> c < 300) = Inr resp \<Longrightarrow>
   robotsParser E rurl (resp_data resp) = Some r \<Longrightarrow>
     fst (checkRobotsTxt E u s) = isAllowed E r str
     \<and> robotsCache (snd (checkRobotsTxt E u s)) = (robotsCache s)(rurl \<mapsto> r)"
  by (simp add: checkRobotsTxt_def Let_def)

text \<open>
  C5, as stated, fails: when the fetch of robots.txt fails nothing is cached, and the
  next check of the same URL fetches robots.txt again.
\<close>

theorem robots_refetch_counterexample:
  "robots_requests (trace (snd (checkRobotsTxt down seed (snd (checkRobotsTxt down seed init)))))
     = [robots_txt, robots_txt]
   \<and> robotsCache (snd (checkRobotsTxt down seed init)) robots_txt = None"
  by (simp add: checkRobotsTxt_def robots_url_def seed_def down_def web_def init_def axios_def
        Let_def robots_requests_def robots_txt_def)

text \<open>
  C5, amended. For a URL whose robots.txt address is \<open>rurl\<close> (scheme and host of the
  URL followed by \<open>/robots.txt\<close>): when an entry for \<open>rurl\<close> is cached, the check
  consults the cache only and performs no I/O (the state, with its trace, is unchanged);
  when none is cached, robots.txt is fetched once; on a successful fetch and parse the
  rule set is cached under \<open>rurl\<close>; on a fetch or parse failure the check answers allow
  and caches nothing, so the next check for the same host fetches again.
\<close>

theorem robots_cached_on_success_only:
  assumes "robots_url E u = Some (str, rurl)"
  shows "(\<forall>r. robotsCache s rurl = Some r \<longrightarrow> checkRobotsTxt E u s = (isAllowed E r str, s))
       \<and> (robotsCache s rurl = None \<longrightarrow>
            trace (snd (checkRobotsTxt E u s)) = trace s @ [Sent (RobotsGet rurl)])
       \<and> (\<forall>resp r. robotsCache s rurl = None
              \<and> axios E (length (trace s)) (RobotsGet rurl) (\<lambda>c. 200 \<le> c \<and> c < 300) = Inr resp
              \<and> robotsParser E rurl (resp_data resp) = Some r \<longrightarrow>
            fst (checkRobotsTxt E u s) = isAllowed E r str
            \<and> robotsCache (snd (checkRobotsTxt E u s)) = (robotsCache s)(rurl \<mapsto> r))
       \<and> (robotsCache s rurl = None \<and> robots_unavailable E rurl (length (trace s)) \<longrightarrow>
            fst (checkRobotsTxt E u s)
            \<and> robotsCache (snd (checkRobotsTxt E u s)) = robotsCache s)"
  using checkRobotsTxt_hit [OF assms] checkRobotsTxt_miss_trace [OF assms]
    checkRobotsTxt_miss_success [OF assms] robots_unavailable_check [OF assms]
  by (auto simp: log_event_def)

theorem robots_cached_on_success_only_witness:
  "robots_requests (trace (snd (checkRobotsTxt web seed (snd (checkRobotsTxt web seed init)))))
     = [robots_txt]
   \<and> robotsCache (snd (checkRobotsTxt web seed init)) robots_txt
     = Some (Robots robots_txt ''User-agent: *'')
   \<and> robotsCache (snd (checkRobotsTxt down seed init)) = robotsCache init"
proof -
  let ?s1 = "snd (checkRobotsTxt web seed init)"
  let ?r = "Robots robots_txt ''User-agent: *''"
  have u: "robots_url web seed = Some (''https://example.test/'', robots_txt)"
    by (simp add: robots_url_def seed_def web_def robots_txt_def)
  have ud: "robots_url down seed = Some (''https://example.test/'', robots_txt)"
    by (simp add: robots_url_def seed_def down_def web_def robots_txt_def)
  have n: "robotsCache init robots_txt = None" by (simp add: init_def)
  have ax: "axios web (length (trace init)) (RobotsGet robots_txt) (\<lambda>c. 200 \<le> c \<and> c < 300)
              = Inr (ok ''User-agent: *'')"
    by (simp add: axios_def web_def ok_def)
  have pr: "robotsParser web robots_txt (resp_data (ok ''User-agent: *'')) = Some ?r"
    by (simp add: web_def ok_def)
  note first = robots_cached_on_success_only [OF u, of init]
  from first n ax pr have c1: "robotsCache ?s1 = (robotsCache init)(robots_txt \<mapsto> ?r)" by blast
  from first n have t1: "trace ?s1 = trace init @ [Sent (RobotsGet robots_txt)]" by blast
  from c1 have hit: "robotsCache ?s1 robots_txt = Some ?r" by simp
  from robots_cached_on_success_only [OF u, of ?s1] hit
  have "checkRobotsTxt web seed ?s1 = (isAllowed web ?r ''https://example.test/'', ?s1)" by blast
  then have t2: "trace (snd (checkRobotsTxt web seed ?s1)) = trace ?s1" by simp
  have un: "robots_unavailable down robots_txt (length (trace init))"
    by (simp add: robots_unavailable_def down_def web_def)
  from robots_cached_on_success_only [OF ud, of init] n un
  have "robotsCache (snd (checkRobotsTxt down seed init)) = robotsCache init" by blast
  with t1 t2 hit show ?thesis by (simp add: robots_requests_def init_def)
qed




lemma grows_within_refl [simp]: "grows_within cfg s s"
  by (simp add: grows_within_def)

lemma grows_within_trans:
  "grows_within cfg s s1 \<Longrightarrow> grows_within cfg s1 s2 \<Longrightarrow> grows_within cfg s s2"
  by (auto simp: grows_within_def)

lemma grows_within_same:
  "visitedUrls s' = visitedUrls s \<Longrightarrow> grows_within cfg s s'"
  by (simp add: grows_within_def)

lemma grows_within_record:
  assumes "\<not> maxPages cfg \<le> int (fcard (visitedUrls s))"
  shows "grows_within cfg s (record_page u pageData s)"
proof -
  have "fcard (finsert u (visitedUrls s)) \<le> Suc (fcard (visitedUrls s))"
    by (simp add: fcard_finsert_if)
  with assms show ?thesis
    by (auto simp: grows_within_def record_page_def)
qed

lemma crawl_grows_within:
  "grows_within cfg s (snd (crawlWithAxios E cfg u depth rts s))"
  "grows_within cfg s (crawl_links E cfg ls depth s)"
proof (induction E cfg u depth rts s and E cfg ls depth s rule: crawlWithAxios_crawl_links.induct)
  case (1 E cfg u depth rts s)
  show ?case
  proof (cases "u |\<in>| visitedUrls s \<or> maxPages cfg \<le> int (fcard (visitedUrls s))")
    case True
    then show ?thesis by (subst crawlWithAxios.simps) auto
  next
    case False
    then have nv: "u |\<notin>| visitedUrls s" and nm: "\<not> maxPages cfg \<le> int (fcard (visitedUrls s))"
      by simp_all
    obtain b s1 where rb: "(if respectRobots cfg then checkRobotsTxt E u s else (True, s)) = (b, s1)"
      by (cases "if respectRobots cfg then checkRobotsTxt E u s else (True, s)")
    then have v1: "visitedUrls s1 = visitedUrls s"
      by (auto simp: unchanged_def split: if_splits dest: checkRobotsTxt_frame)
    show ?thesis
    proof (cases b)
      case False
      with nv nm rb v1 show ?thesis
        by (subst crawlWithAxios.simps) (simp add: grows_within_same)
    next
      case True
      obtain r s2 where fp: "fetch_page E cfg u s1 = (r, s2)" by (cases "fetch_page E cfg u s1")
      from fetch_page_frame[OF fp] v1 have v2: "visitedUrls s2 = visitedUrls s" by simp
      show ?thesis
      proof (cases r)
        case (Inl e)
        show ?thesis
        proof (cases "0 < rts")
          case False
          with nv nm rb True fp Inl v2 show ?thesis
            by (subst crawlWithAxios.simps) (simp add: grows_within_same)
        next
          case pos: True
          have "grows_within cfg (sleep (delay cfg * 2) s2)
                  (snd (crawlWithAxios E cfg u depth (rts - 1) (sleep (delay cfg * 2) s2)))"
            using "1.IH"(1)[OF nv nm rb[symmetric] _ fp[symmetric] Inl pos] True by simp
          moreover have "grows_within cfg s (sleep (delay cfg * 2) s2)"
            using v2 by (simp add: grows_within_same)
          ultimately have "grows_within cfg s
                  (snd (crawlWithAxios E cfg u depth (rts - 1) (sleep (delay cfg * 2) s2)))"
            using grows_within_trans by blast
          with nv nm rb True fp Inl pos show ?thesis
            by (subst crawlWithAxios.simps) simp
        qed
      next
        case (Inr dp)
        obtain doc pageData where dp: "dp = (doc, pageData)" by (cases dp)
        let ?s3 = "record_page u pageData s2"
        have g3: "grows_within cfg s ?s3"
        proof -
          from nm v2 have "\<not> maxPages cfg \<le> int (fcard (visitedUrls s2))" by simp
          then have "grows_within cfg s2 ?s3" by (rule grows_within_record)
          moreover have "grows_within cfg s s2" using v2 by (simp add: grows_within_same)
          ultimately show ?thesis using grows_within_trans by blast
        qed
        show ?thesis
        proof (cases "0 < depth")
          case False
          with nv nm rb True fp Inr dp g3 show ?thesis
            by (subst crawlWithAxios.simps) simp
        next
          case pos: True
          obtain links s4 where al: "allocate (extractLinks E doc u) ?s3 = (links, s4)"
            by (cases "allocate (extractLinks E doc u) ?s3")
          then have "visitedUrls s4 = visitedUrls ?s3" by (auto simp: allocate_def)
          then have g4: "grows_within cfg s s4"
            using g3 grows_within_same grows_within_trans by blast
          have "grows_within cfg s4 (crawl_links E cfg (slice0 (concurrent cfg) links) (depth - 1) s4)"
            using "1.IH"(2)[OF nv nm rb[symmetric] _ fp[symmetric] Inr dp[symmetric] refl pos al[symmetric]]
              True by simp
          with g4 have "grows_within cfg s
                 (crawl_links E cfg (slice0 (concurrent cfg) links) (depth - 1) s4)"
            using grows_within_trans by blast
          with nv nm rb True fp Inr dp pos al show ?thesis
            by (subst crawlWithAxios.simps) simp
        qed
      qed
    qed
  qed
next
  case (2 E cfg depth s)
  show ?case by simp
next
  case (3 E cfg l ls depth s)
  have "grows_within cfg s (sleep (delay cfg) s)" by (simp add: grows_within_same)
  with "3.IH"(1) have "grows_within cfg s (snd (crawlWithAxios E cfg l depth 0 (sleep (delay cfg) s)))"
    using grows_within_trans by blast
  with "3.IH"(2) have "grows_within cfg s
      (crawl_links E cfg ls depth (snd (crawlWithAxios E cfg l depth 0 (sleep (delay cfg) s))))"
    using grows_within_trans by blast
  then show ?case by simp
qed

lemma puppeteer_visited:
  "visitedUrls (snd (crawlWithPuppeteer E cfg v s)) =
     (case browser E (length (trace s)) v of
        Inl err \<Rightarrow> visitedUrls s | Inr r \<Rightarrow> finsert (Url v) (visitedUrls s))"
  by (simp add: crawlWithPuppeteer_def record_page_def Let_def split: sum.splits)

lemma curl_visited:
  "visitedUrls (snd (crawlWithCurl E cfg v s)) =
     (case exec_curl E (length (trace s)) v of
        Inl err \<Rightarrow> visitedUrls s | Inr out \<Rightarrow> finsert (Url v) (visitedUrls s))"
  by (simp add: crawlWithCurl_def record_page_def Let_def split: sum.splits prod.splits)

text \<open>
  C4, as stated, fails: with \<open>maxPages = 1\<close>, two calls of \<open>crawlWithPuppeteer\<close> (or of
  \<open>crawlWithCurl\<close>) on two URLs leave two URLs in the visited set.
\<close>

theorem visited_bound_counterexample:
  "maxPages (cfg0\<lparr>maxPages := 1\<rparr>) = 1
   \<and> fcard (visitedUrls (snd (crawlWithPuppeteer web (cfg0\<lparr>maxPages := 1\<rparr>) ''https://example.test/b''
         (snd (crawlWithPuppeteer web (cfg0\<lparr>maxPages := 1\<rparr>) ''https://example.test/a'' init))))) = 2
   \<and> fcard (visitedUrls (snd (crawlWithCurl web (cfg0\<lparr>maxPages := 1\<rparr>) ''https://example.test/b''
         (snd (crawlWithCurl web (cfg0\<lparr>maxPages := 1\<rparr>) ''https://example.test/a'' init))))) = 2"
  by (simp add: puppeteer_visited curl_visited web_def init_def fcard_finsert_if)

text \<open>
  C4, amended. In a session that crawls with \<open>crawlWithAxios\<close>, one call after the
  other, the visited set only grows and, once within \<open>maxPages\<close>, stays within
  \<open>maxPages\<close> at every call and so at every point in between, because a URL is only
  admitted when the visited count is strictly below \<open>maxPages\<close>. \<open>crawlWithPuppeteer\<close>
  and \<open>crawlWithCurl\<close> do not consult \<open>maxPages\<close>: each successful call adds its URL to
  the visited set.
\<close>

theorem visited_bounded_in_axios_crawl:
  "visitedUrls s |\<subseteq>| visitedUrls (snd (crawlWithAxios E cfg u depth rts s))
   \<and> (int (fcard (visitedUrls s)) \<le> maxPages cfg \<longrightarrow>
        int (fcard (visitedUrls (snd (crawlWithAxios E cfg u depth rts s)))) \<le> maxPages cfg)
   \<and> (\<forall>r. browser E (length (trace s)) v = Inr r \<longrightarrow>
        visitedUrls (snd (crawlWithPuppeteer E cfg v s)) = finsert (Url v) (visitedUrls s))
   \<and> (\<forall>out. exec_curl E (length (trace s)) v = Inr out \<longrightarrow>
        visitedUrls (snd (crawlWithCurl E cfg v s)) = finsert (Url v) (visitedUrls s))"
  using crawl_grows_within(1) [of cfg s E u depth rts]
  by (simp add: grows_within_def puppeteer_visited curl_visited)

theorem visited_bounded_in_axios_crawl_witness:
  "int (fcard (visitedUrls init)) \<le> maxPages (cfg0\<lparr>maxPages := 1\<rparr>)
   \<and> int (fcard (visitedUrls (snd (crawlWithAxios web (cfg0\<lparr>maxPages := 1\<rparr>) seed 2 0 init)))) \<le> 1
   \<and> visitedUrls (snd (crawlWithPuppeteer web cfg0 ''https://example.test/a'' init))
        = {|Url ''https://example.test/a''|}"
proof -
  have h: "int (fcard (visitedUrls init)) \<le> maxPages (cfg0\<lparr>maxPages := 1\<rparr>)"
    by (simp add: init_def fcard_fempty)
  have b: "browser web (length (trace init)) ''https://example.test/a'' =
      Inr \<lparr>dom_title = ''Home'', dom_location = ''https://example.test/a'', dom_innerText = [],
           dom_outerHTML = [], dom_anchors = [], dom_imgs = [], dom_meta_content = (\<lambda>n. None)\<rparr>"
    by (simp add: web_def)
  note c = visited_bounded_in_axios_crawl [of init web "cfg0\<lparr>maxPages := 1\<rparr>" seed 2 0
      "''https://example.test/a''"]
  from c h have "int (fcard (visitedUrls (snd (crawlWithAxios web (cfg0\<lparr>maxPages := 1\<rparr>) seed 2 0 init)))) \<le> 1"
    by simp
  moreover from c b have "visitedUrls (snd (crawlWithPuppeteer web (cfg0\<lparr>maxPages := 1\<rparr>) ''https://example.test/a'' init))
        = finsert (Url ''https://example.test/a'') (visitedUrls init)" by blast
  then have "visitedUrls (snd (crawlWithPuppeteer web cfg0 ''https://example.test/a'' init))
        = {|Url ''https://example.test/a''|}"
    by (simp add: init_def puppeteer_visited)
  ultimately show ?thesis using h by simp
qed






lemma fetch_page_Inr:
  "fetch_page E cfg u s = (Inr (doc, p), s') \<Longrightarrow>
     \<exists>resp. makeRequest E cfg u s = (Inr (Some resp), s')
        \<and> doc = cheerio_load E (resp_data resp)
        \<and> p = extractPageData E (length (trace s')) doc u resp"
  by (auto simp: fetch_page_def Let_def split: prod.splits sum.splits option.splits)

lemma crawlWithAxios_page:
  "crawlWithAxios E cfg u depth rts s = (Some p, s') \<Longrightarrow>
     \<exists>s1 s2 resp. makeRequest E cfg u s1 = (Inr (Some resp), s2)
        \<and> p = extractPageData E (length (trace s2)) (cheerio_load E (resp_data resp)) u resp"
proof (induction rts arbitrary: s)
  case 0
  from "0.prems" show ?case
    by (subst (asm) crawlWithAxios.simps)
       (auto simp: Let_def split: if_splits prod.splits sum.splits dest!: fetch_page_Inr)
next
  case (Suc rts)
  from Suc.prems show ?case
    by (subst (asm) crawlWithAxios.simps)
       (auto simp: Let_def split: if_splits prod.splits sum.splits dest!: fetch_page_Inr dest: Suc.IH)
qed

lemma crawlWithCurl_page:
  "crawlWithCurl E cfg v s = (Some p, s') \<Longrightarrow>
     \<exists>out err. exec_curl E (length (trace s)) v = Inr (out, err)
        \<and> page_meta p = extract_meta (cheerio_load E out)"
  by (auto simp: crawlWithCurl_def extractPageData_def Let_def split: sum.splits prod.splits)

lemma crawlWithPuppeteer_page:
  "crawlWithPuppeteer E cfg v s = (Some q, s') \<Longrightarrow>
     \<exists>r. browser E (length (trace s)) v = Inr r \<and> page_meta q = puppeteer_meta r"
  by (auto simp: crawlWithPuppeteer_def puppeteer_page_def puppeteer_meta_def Let_def
           split: sum.splits)

lemma extract_meta_keys: "map fst (extract_meta doc) = five_keys"
  by (simp add: extract_meta_def five_keys_def)

lemma extract_meta_values:
  "k \<in> set [''description'', ''keywords'', ''author'', ''viewport''] \<Longrightarrow>
     map_of (extract_meta doc) k = Some (or_else (first_attr (meta_named k) doc ''content'') [])"
  by (auto simp: extract_meta_def)

lemma extract_meta_charset:
  "map_of (extract_meta doc) ''charset'' =
     Some (or_else (first_attr meta_with_charset doc ''charset'')
            (or_else (first_attr (meta_http_equiv ''Content-Type'') doc ''content'') []))"
  by (simp add: extract_meta_def)

text \<open>
  C8, as stated, fails: the record that \<open>crawlWithPuppeteer\<close> builds has no
  \<open>viewport\<close> and no \<open>charset\<close> key.
\<close>

theorem puppeteer_meta_counterexample:
  "map_option (\<lambda>p. map fst (page_meta p)) (fst (crawlWithPuppeteer web cfg0 ''https://example.test/'' init))
     = Some [''description'', ''keywords'', ''author'']"
  by (simp add: crawlWithPuppeteer_def puppeteer_page_def web_def Let_def)

text \<open>
  C8, amended. The metadata of a page record returned by \<open>crawlWithAxios\<close> is the
  metadata of the document parsed from the body of a response that \<open>makeRequest\<close>
  returned for that URL, and the metadata of a page record returned by \<open>crawlWithCurl\<close>
  is that of the document parsed from the standard output of curl. The metadata of a
  document has exactly the five keys description, keywords, author, viewport and charset:
  description, keywords, author and viewport are bound to the \<open>content\<close> of the first meta
  tag of that name, and charset to the \<open>charset\<close> attribute of the first meta tag that
  has one or else to the \<open>content\<close> of the first meta tag whose \<open>http-equiv\<close> is
  \<open>Content-Type\<close> in any letter case; each is the empty string when there is no such tag
  or value. A page record returned by \<open>crawlWithPuppeteer\<close> has the three keys
  description, keywords and author only, read from the rendered document.
\<close>

theorem page_meta_keys:
  "(crawlWithAxios E cfg u depth rts s = (Some p, s') \<longrightarrow>
      (\<exists>s1 s2 resp. makeRequest E cfg u s1 = (Inr (Some resp), s2)
          \<and> page_meta p = extract_meta (cheerio_load E (resp_data resp))))
   \<and> (crawlWithCurl E cfg v s = (Some p', s'') \<longrightarrow>
      (\<exists>out err. exec_curl E (length (trace s)) v = Inr (out, err)
          \<and> page_meta p' = extract_meta (cheerio_load E out)))
   \<and> map fst (extract_meta doc) = five_keys
   \<and> (k \<in> set [''description'', ''keywords'', ''author'', ''viewport''] \<longrightarrow>
        map_of (extract_meta doc) k = Some (or_else (first_attr (meta_named k) doc ''content'') []))
   \<and> map_of (extract_meta doc) ''charset'' =
        Some (or_else (first_attr meta_with_charset doc ''charset'')
               (or_else (first_attr (meta_http_equiv ''Content-Type'') doc ''content'') []))
   \<and> (crawlWithPuppeteer E cfg v s = (Some q, s''') \<longrightarrow>
        (\<exists>r. browser E (length (trace s)) v = Inr r \<and> page_meta q = puppeteer_meta r))"
proof -
  have "\<exists>s1 s2 resp. makeRequest E cfg u s1 = (Inr (Some resp), s2)
          \<and> page_meta p = extract_meta (cheerio_load E (resp_data resp))"
    if "crawlWithAxios E cfg u depth rts s = (Some p, s')"
  proof -
    from crawlWithAxios_page[OF that] obtain s1 s2 resp where
      "makeRequest E cfg u s1 = (Inr (Some resp), s2)"
      "p = extractPageData E (length (trace s2)) (cheerio_load E (resp_data resp)) u resp"
      by blast
    then show ?thesis by (auto simp: extractPageData_def)
  qed
  then show ?thesis
    using crawlWithCurl_page [of E cfg v s p' s''] crawlWithPuppeteer_page [of E cfg v s q s''']
      extract_meta_keys [of doc] extract_meta_values [of k doc] extract_meta_charset [of doc]
    by blast
qed

theorem page_meta_keys_witness:
  "map_option page_meta (fst (crawlWithAxios web cfg0 seed 0 0 init)) = Some (extract_meta home_doc)
   \<and> map_of (extract_meta home_doc) ''description'' = Some ''A page''
   \<and> map_of (extract_meta home_doc) ''viewport'' = Some []
   \<and> map_of (extract_meta charset_doc) ''charset'' = Some ''text/html; charset=utf-8''"
proof -
  have ne: "fst (crawlWithAxios web cfg0 seed 0 0 init) \<noteq> None" by code_simp
  then obtain p s' where c: "crawlWithAxios web cfg0 seed 0 0 init = (Some p, s')"
    by (cases "crawlWithAxios web cfg0 seed 0 0 init") auto
  have d: "first_attr (meta_named ''description'') home_doc ''content'' = Some ''A page''"
    by (simp add: first_attr_def meta_named_def home_doc_def anchor_def attr_def)
  have v: "first_attr (meta_named ''viewport'') home_doc ''content'' = None"
    by (simp add: first_attr_def meta_named_def home_doc_def anchor_def attr_def)
  have ch: "first_attr meta_with_charset charset_doc ''charset'' = None"
    by (simp add: first_attr_def meta_with_charset_def charset_doc_def attr_def)
  have he: "first_attr (meta_http_equiv ''Content-Type'') charset_doc ''content''
              = Some ''text/html; charset=utf-8''"
    by (simp add: first_attr_def meta_http_equiv_def charset_doc_def attr_def lowercase_def
          lower_char_def)
  note t = page_meta_keys [of web cfg0 seed 0 0 init p s']
  from t [where doc = home_doc and k = "''description''"] c
  have "page_meta p = extract_meta home_doc" by (auto simp: web_def)
  moreover from t [where doc = home_doc and k = "''description''"] d
  have "map_of (extract_meta home_doc) ''description'' = Some ''A page''"
    by (simp add: or_else_def)
  moreover from t [where doc = home_doc and k = "''viewport''"] v
  have "map_of (extract_meta home_doc) ''viewport'' = Some []"
    by (simp add: or_else_def)
  moreover from t [where doc = charset_doc and k = "''viewport''"] ch he
  have "map_of (extract_meta charset_doc) ''charset'' = Some ''text/html; charset=utf-8''"
    by (simp add: or_else_def)
  ultimately show ?thesis using c by simp
qed

lemma repeated_Nil [simp]: "repeated [] xs = []" "repeated ns [] = []"
  by (simp_all add: repeated_def)

lemma repeated_Cons [simp]: "repeated (n # ns) (x # xs) = replicate n x @ repeated ns xs"
  by (simp add: repeated_def)








lemma followed_no_links [simp]:
  "followed cfg depth n None = []"
  "page_links p = [] \<Longrightarrow> followed cfg depth n (Some p) = []"
  "followed cfg 0 n r = []"
  by (simp_all add: followed_def slice0_def split: option.splits)






end
